theory Spec2Isabelle
  imports Main "HOL-Library.Sublist"
begin

section \<open>The test runner of jest-runner: sequential and parallel scheduling\<close>

text \<open>
  The development embeds \<^verbatim>\<open>packages/jest-runner/src/index.js\<close>: the class
  \<^verbatim>\<open>TestRunner\<close> with \<^verbatim>\<open>runTests\<close>, \<^verbatim>\<open>_createInBandTestRun\<close> and
  \<^verbatim>\<open>_createParallelTestRun\<close>. The runner works on collaborators it only calls: the
  event emitter, the single-test execution \<^verbatim>\<open>runTest\<close>, the worker pool, the gate
  \<^verbatim>\<open>throat\<close>, the watcher, \<^verbatim>\<open>console.error\<close> and \<^verbatim>\<open>exit\<close>. Every call the runner
  makes on a collaborator is recorded, in order, in a trace of actions; what a collaborator
  answers is an input of the model.

  A test is identified by its position in the input array \<^verbatim>\<open>tests\<close> (a test descriptor
  appears once per run), so a run over \<open>n\<close> tests is a run over the positions \<open>0..<n\<close>.
\<close>

subsection \<open>Values\<close>

text \<open>The result of a test is opaque to the runner and forwarded untouched.\<close>

type_synonym test_result = string

text \<open>
  A rejection reason is any JavaScript value. The runner meets two kinds: \<^verbatim>\<open>undefined\<close>
  (from \<^verbatim>\<open>Promise.reject()\<close> with no argument) and error objects, of which it reads the
  property \<^verbatim>\<open>type\<close> only.
\<close>

datatype jserror =
    Undefined
  | ErrorObject (err_name: string) (err_type: "string option") (err_message: string)

text \<open>\<^verbatim>\<open>class CancelRun extends Error\<close>, built with no message; it has no \<^verbatim>\<open>type\<close>.\<close>

definition CancelRun :: jserror where
  "CancelRun = ErrorObject ''CancelRun'' None []"

text \<open>The error JavaScript throws when a property of \<^verbatim>\<open>undefined\<close> is read.\<close>

definition TypeError :: jserror where
  "TypeError = ErrorObject ''TypeError'' None ''Cannot read property type of undefined''"

text \<open>The expression \<^verbatim>\<open>err.type\<close>: it throws on \<^verbatim>\<open>undefined\<close> and reads the tag of an object.\<close>

fun get_type :: "jserror \<Rightarrow> jserror + string option" where
  "get_type Undefined = Inl TypeError"
| "get_type (ErrorObject n ty m) = Inr ty"

text \<open>The test of \<^verbatim>\<open>onError\<close>: \<^verbatim>\<open>err.type === 'ProcessTerminatedError'\<close>.\<close>

definition is_fatal :: "jserror \<Rightarrow> bool" where
  "is_fatal err = (get_type err = Inr (Some ''ProcessTerminatedError''))"

text \<open>A settled promise.\<close>

datatype 'a settlement = Fulfilled 'a | Rejected jserror

text \<open>The calls of the runner on its collaborators, as they appear in the source.\<close>

datatype action =
    SetWorkerId
    \<comment> \<open>\<^verbatim>\<open>process.env.JEST_WORKER_ID = '1'\<close>\<close>
  | TestFileStart nat
    \<comment> \<open>\<^verbatim>\<open>eventEmitter.emit('test-file-start', test)\<close>\<close>
  | TestFileSuccess nat test_result
    \<comment> \<open>\<^verbatim>\<open>eventEmitter.emit('test-file-success', test, result)\<close>\<close>
  | TestFileFailure nat jserror
    \<comment> \<open>\<^verbatim>\<open>eventEmitter.emit('test-file-failure', test, err)\<close>\<close>
  | RunTest nat
    \<comment> \<open>\<^verbatim>\<open>runTest(test.path, ...)\<close> is called in-process\<close>
  | RunTestSettled nat
    \<comment> \<open>the promise of that call settles\<close>
  | NewWorker nat
    \<comment> \<open>\<^verbatim>\<open>new Worker(TEST_WORKER_PATH, {..., numWorkers})\<close>\<close>
  | WatcherOnChange
    \<comment> \<open>\<^verbatim>\<open>watcher.on('change', ...)\<close>\<close>
  | WorkerCall nat
    \<comment> \<open>\<^verbatim>\<open>worker.worker({..., path: test.path, ...})\<close>\<close>
  | WorkerEnd
    \<comment> \<open>\<^verbatim>\<open>worker.end()\<close>\<close>
  | ConsoleError string
  | Exit nat
    \<comment> \<open>\<^verbatim>\<open>exit(1)\<close>\<close>

subsection \<open>Promise chains\<close>

text \<open>
  A chain that has run to its end is its settlement together with the trace so far.
  \<open>then_chain\<close>, \<open>catch_chain\<close> and \<open>then_both\<close> are \<^verbatim>\<open>p.then(f)\<close>, \<^verbatim>\<open>p.catch(g)\<close> and
  \<^verbatim>\<open>p.then(f, g)\<close>.
\<close>

type_synonym 'a chain = "'a settlement \<times> action list"

fun then_chain :: "'a chain \<Rightarrow> ('a \<Rightarrow> action list \<Rightarrow> 'b chain) \<Rightarrow> 'b chain" where
  "then_chain (Fulfilled v, tr) f = f v tr"
| "then_chain (Rejected e, tr) f = (Rejected e, tr)"

fun catch_chain :: "'a chain \<Rightarrow> (jserror \<Rightarrow> action list \<Rightarrow> 'a chain) \<Rightarrow> 'a chain" where
  "catch_chain (Fulfilled v, tr) g = (Fulfilled v, tr)"
| "catch_chain (Rejected e, tr) g = g e tr"

fun then_both ::
  "'a chain \<Rightarrow> ('a \<Rightarrow> action list \<Rightarrow> 'b chain) \<Rightarrow> (jserror \<Rightarrow> action list \<Rightarrow> 'b chain) \<Rightarrow> 'b chain"
where
  "then_both (Fulfilled v, tr) f g = f v tr"
| "then_both (Rejected e, tr) f g = g e tr"

text \<open>
  Modelled from the spec: the event bus (the package \<^verbatim>\<open>emittery\<close> is not part of the
  sources). \<^verbatim>\<open>emit\<close> hands the event to every subscriber and returns once all of them
  have processed it; its promise is fulfilled with no value. In a chain the handler that
  follows runs next; where the parallel run awaits an emission, the continuation is a move
  of its own.
\<close>

definition emit :: "action \<Rightarrow> action list \<Rightarrow> unit chain" where
  "emit ev tr = (Fulfilled (), tr @ [ev])"

subsection \<open>The sequential strategy\<close>

text \<open>
  What the environment does at one test of a sequential run: the answer of
  \<^verbatim>\<open>watcher.isInterrupted()\<close> at the check before the test, and how the promise of
  \<^verbatim>\<open>runTest\<close> settles if the test is executed.
\<close>

datatype in_band_env =
  InBandEnv (is_interrupted: bool) (run_test_settles: "test_result settlement")

text \<open>
  Modelled from the spec: the single-test execution (\<^verbatim>\<open>./run_test\<close> is not part of the
  sources), an opaque operation that returns a result or fails.
\<close>

definition runTest :: "in_band_env \<Rightarrow> nat \<Rightarrow> action list \<Rightarrow> test_result chain" where
  "runTest env i tr = (run_test_settles env, tr @ [RunTest i, RunTestSettled i])"

text \<open>
  The body of the reducer of \<^verbatim>\<open>_createInBandTestRun\<close> for the test at position \<open>i\<close>:
  \<^verbatim>\<open>promise.then(async () => {...}).then(result => ...).catch(err => ...)\<close>.
\<close>

definition in_band_test :: "in_band_env \<Rightarrow> nat \<Rightarrow> unit chain \<Rightarrow> unit chain" where
  "in_band_test env i promise =
     catch_chain
       (then_chain
          (then_chain promise
             (\<lambda>_ tr.
                if is_interrupted env then (Rejected CancelRun, tr)
                else then_chain (emit (TestFileStart i) tr) (\<lambda>_. runTest env i)))
          (\<lambda>result. emit (TestFileSuccess i result)))
       (\<lambda>err. emit (TestFileFailure i err))"

text \<open>The width of the gate of the sequential strategy: \<^verbatim>\<open>throat(1)\<close>.\<close>

definition in_band_gate_width :: nat where
  "in_band_gate_width = 1"

text \<open>
  \<^verbatim>\<open>tests.reduce((promise, test) => mutex(() => ...), Promise.resolve())\<close>.
  Modelled from the spec: the gate (the package \<^verbatim>\<open>throat\<close> is not part of the sources)
  admits its callers first-in-first-out while fewer than its width hold it. With width 1
  the closures run one after the other in the order of the calls, each after the promise
  of the one before has settled, which is the promise it chains on: the run is the left
  fold of the reducer.
\<close>

definition createInBandTestRun :: "nat \<Rightarrow> (nat \<Rightarrow> in_band_env) \<Rightarrow> unit chain" where
  "createInBandTestRun n env =
     foldl (\<lambda>promise i. in_band_test (env i) i promise) (Fulfilled (), [SetWorkerId]) [0..<n]"

subsection \<open>The parallel strategy\<close>

text \<open>
  The parallel run is a transition system. A test that has left the queue of the gate is
  in one of these phases; the tests still queued are the positions from
  \<open>length (phases s)\<close> on.
\<close>

datatype phase =
    Starting
    \<comment> \<open>holds a slot of the gate: start emitted, the closure is at its \<^verbatim>\<open>await\<close>\<close>
  | InFlight
    \<comment> \<open>holds a slot of the gate: \<^verbatim>\<open>worker.worker\<close> called and pending\<close>
  | GateRejected
    \<comment> \<open>the closure saw the interruption and returned \<^verbatim>\<open>Promise.reject()\<close>\<close>
  | Settled "test_result settlement"
    \<comment> \<open>the promise of \<^verbatim>\<open>worker.worker\<close> has settled and the slot is free again\<close>
  | Succeeded
    \<comment> \<open>the success event is emitted, the promise of the handler is pending\<close>
  | Awaiting bool jserror
    \<comment> \<open>in \<^verbatim>\<open>onError\<close>, at the \<^verbatim>\<open>await\<close> of the failure event; the flag says whether
        the test was started\<close>
  | Returning bool
    \<comment> \<open>\<^verbatim>\<open>onError\<close> has called \<^verbatim>\<open>exit(1)\<close> and returns if that call does\<close>
  | Finished bool "unit settlement"
    \<comment> \<open>the chain of the test, an element of \<^verbatim>\<open>Promise.all\<close>, has settled\<close>

text \<open>
  \<open>race\<close> is how \<^verbatim>\<open>Promise.race\<close> was decided, \<open>returned\<close> the settlement of the
  promise \<^verbatim>\<open>runTests\<close> returns, \<open>exit_code\<close> the status \<^verbatim>\<open>exit\<close> was called with, if
  it was called.
\<close>

record par_state =
  phases :: "phase list"
  interrupted :: bool
  race :: "unit settlement option"
  returned :: "unit settlement option"
  exit_code :: "nat option"
  trace :: "action list"

text \<open>The tests that hold a slot of the gate.\<close>

fun holds_slot :: "phase \<Rightarrow> bool" where
  "holds_slot Starting = True"
| "holds_slot InFlight = True"
| "holds_slot p = False"

definition in_flight :: "par_state \<Rightarrow> nat" where
  "in_flight s = length (filter holds_slot (phases s))"

text \<open>\<^verbatim>\<open>const cleanup = () => worker.end()\<close>.\<close>

definition cleanup :: "action list \<Rightarrow> unit chain" where
  "cleanup tr = (Fulfilled (), tr @ [WorkerEnd])"

text \<open>
  \<^verbatim>\<open>Promise.race([runAllTests, onInterrupt]).then(cleanup, cleanup)\<close>: the first
  settlement decides the race, later ones are ignored; the promise returned to the
  caller settles as \<open>cleanup\<close> does.
\<close>

definition settle_race :: "unit settlement \<Rightarrow> par_state \<Rightarrow> par_state" where
  "settle_race r s =
     (if race s \<noteq> None then s
      else (case then_both (r, trace s) (\<lambda>_. cleanup) (\<lambda>_. cleanup) of
              (out, tr) \<Rightarrow> s\<lparr>race := Some r, returned := Some out, trace := tr\<rparr>))"

fun is_fulfilled :: "phase \<Rightarrow> bool" where
  "is_fulfilled (Finished st (Fulfilled v)) = True"
| "is_fulfilled p = False"

fun is_finished :: "phase \<Rightarrow> bool" where
  "is_finished (Finished st out) = True"
| "is_finished p = False"

text \<open>
  \<^verbatim>\<open>Promise.all\<close> is fulfilled once the chains of all \<open>n\<close> tests are, and rejected
  (which \<open>resume\<close> does) as soon as one of them is.
\<close>

definition promise_all :: "nat \<Rightarrow> par_state \<Rightarrow> par_state" where
  "promise_all n s =
     (if length (phases s) = n \<and> list_all is_fulfilled (phases s)
      then settle_race (Fulfilled ()) s else s)"

text \<open>
  Modelled from the spec: the gate \<^verbatim>\<open>throat(maxWorkers)\<close>, of width \<open>K\<close>, hands a slot
  to the first queued test while fewer than \<open>K\<close> tests hold one.
  The closure of that test (the argument of \<^verbatim>\<open>mutex\<close> in \<^verbatim>\<open>runTestInWorker\<close>) then runs:
  it checks the watcher and either rejects with no reason, which frees the slot at once,
  or emits the start event and waits for the emission.
\<close>

definition admit :: "nat \<Rightarrow> nat \<Rightarrow> par_state \<Rightarrow> par_state" where
  "admit K n s =
     (let i = length (phases s) in
      if i < n \<and> in_flight s < K then
        (if interrupted s then s\<lparr>phases := phases s @ [GateRejected]\<rparr>
         else s\<lparr>phases := phases s @ [Starting], trace := trace s @ [TestFileStart i]\<rparr>)
      else s)"

text \<open>
  The closure of test \<open>i\<close> resumes when the emission of its own start event has
  resolved, and hands the test to the pool: \<^verbatim>\<open>return worker.worker({...})\<close>. Nothing
  orders the closures of different tests among themselves.
\<close>

definition dispatch :: "nat \<Rightarrow> par_state \<Rightarrow> par_state" where
  "dispatch i s =
     (if i < length (phases s) \<and> phases s ! i = Starting
      then s\<lparr>phases := (phases s)[i := InFlight], trace := trace s @ [WorkerCall i]\<rparr>
      else s)"

text \<open>
  Modelled from the spec: the worker pool (the package \<^verbatim>\<open>jest-worker\<close> is not part of
  the sources). A dispatched test eventually succeeds or fails with some reason; when it
  does is the pool's choice. The settlement frees the slot of the gate.
\<close>

definition settle :: "nat \<Rightarrow> test_result settlement \<Rightarrow> par_state \<Rightarrow> par_state" where
  "settle i r s =
     (if i < length (phases s) \<and> phases s ! i = InFlight
      then s\<lparr>phases := (phases s)[i := Settled r]\<rparr> else s)"

text \<open>
  The handlers attached in \<^verbatim>\<open>runAllTests\<close>, up to the emission of the terminal event:
  \<^verbatim>\<open>.then(result => emit('test-file-success', test, result))\<close> and
  \<^verbatim>\<open>.catch(error => onError(error, test))\<close>, the latter up to the \<^verbatim>\<open>await\<close> in
  \<^verbatim>\<open>onError\<close>.
\<close>

definition handle :: "nat \<Rightarrow> par_state \<Rightarrow> par_state" where
  "handle i s =
     (if i < length (phases s) then
        (case phases s ! i of
           Settled (Fulfilled result) \<Rightarrow>
             s\<lparr>phases := (phases s)[i := Succeeded],
                trace := trace s @ [TestFileSuccess i result]\<rparr>
         | Settled (Rejected err) \<Rightarrow>
             s\<lparr>phases := (phases s)[i := Awaiting True err],
                trace := trace s @ [TestFileFailure i err]\<rparr>
         | GateRejected \<Rightarrow>
             s\<lparr>phases := (phases s)[i := Awaiting False Undefined],
                trace := trace s @ [TestFileFailure i Undefined]\<rparr>
         | _ \<Rightarrow> s)
      else s)"

definition fatal_message :: string where
  "fatal_message =
     ''A worker process has quit unexpectedly! Most likely this is an initialization error.''"

text \<open>
  What follows the emission of the terminal event. After a success event the chain of the
  test is fulfilled. \<^verbatim>\<open>onError\<close> goes on after its \<^verbatim>\<open>await\<close>: it reads \<^verbatim>\<open>err.type\<close>,
  which throws on \<^verbatim>\<open>undefined\<close> and so rejects the chain of the test (and with it
  \<^verbatim>\<open>Promise.all\<close>); for a terminated worker process it calls \<^verbatim>\<open>console.error\<close> and
  \<^verbatim>\<open>exit(1)\<close>; otherwise it returns and the chain of the test is fulfilled.

  Modelled from the spec: \<^verbatim>\<open>exit\<close> (the package is not part of the sources) ends the
  host process with the given status. It may do so at once, and the run then stops at the
  state reached; or only after the output streams have drained, and the call then
  returns, \<^verbatim>\<open>onError\<close> returns and the chain of the test is fulfilled.
\<close>

definition resume :: "nat \<Rightarrow> nat \<Rightarrow> par_state \<Rightarrow> par_state" where
  "resume n i s =
     (if i < length (phases s) then
        (case phases s ! i of
           Succeeded \<Rightarrow>
             promise_all n (s\<lparr>phases := (phases s)[i := Finished True (Fulfilled ())]\<rparr>)
         | Awaiting st err \<Rightarrow>
             (case get_type err of
                Inl type_error \<Rightarrow>
                  settle_race (Rejected type_error)
                    (s\<lparr>phases := (phases s)[i := Finished st (Rejected type_error)]\<rparr>)
              | Inr ty \<Rightarrow>
                  if ty = Some ''ProcessTerminatedError''
                  then s\<lparr>phases := (phases s)[i := Returning st], exit_code := Some 1,
                          trace := trace s @ [ConsoleError fatal_message, Exit 1]\<rparr>
                  else promise_all n
                         (s\<lparr>phases := (phases s)[i := Finished st (Fulfilled ())]\<rparr>))
         | Returning st \<Rightarrow>
             promise_all n (s\<lparr>phases := (phases s)[i := Finished st (Fulfilled ())]\<rparr>)
         | _ \<Rightarrow> s)
      else s)"

text \<open>
  Modelled from the spec: the watcher (its class is not part of the sources).
  A change notification that carries \<^verbatim>\<open>interrupted\<close> comes with \<^verbatim>\<open>isInterrupted()\<close>
  turning true, and the signal stays fired. The listener of \<^verbatim>\<open>onInterrupt\<close> rejects
  with a \<^verbatim>\<open>CancelRun\<close>.
\<close>

definition interrupt :: "par_state \<Rightarrow> par_state" where
  "interrupt s = settle_race (Rejected CancelRun) (s\<lparr>interrupted := True\<rparr>)"

text \<open>
  What can happen next in a parallel run. \<open>Settle\<close> and \<open>Interrupt\<close> are moves of the
  environment, the others are continuations of the runner that the event loop schedules.
  A move that is not enabled leaves the state as it is. A run is a list of moves; every
  prefix of it is a state the run goes through, and a process that ends (after
  \<^verbatim>\<open>exit(1)\<close>) ends the run at the state reached.
\<close>

datatype label =
    Admit
  | Dispatch nat
  | Settle nat "test_result settlement"
  | Handle nat
  | Resume nat
  | Interrupt

definition step :: "nat \<Rightarrow> nat \<Rightarrow> par_state \<Rightarrow> label \<Rightarrow> par_state" where
  "step K n s l =
     (case l of
        Admit \<Rightarrow> admit K n s
      | Dispatch i \<Rightarrow> dispatch i s
      | Settle i r \<Rightarrow> settle i r s
      | Handle i \<Rightarrow> handle i s
      | Resume i \<Rightarrow> resume n i s
      | Interrupt \<Rightarrow> interrupt s)"

text \<open>
  The synchronous part of \<^verbatim>\<open>_createParallelTestRun\<close>: the pool is built with
  \<^verbatim>\<open>maxWorkers\<close> workers, the gate with the same width, the listener is registered, and
  \<^verbatim>\<open>Promise.all\<close> of no test at all is fulfilled at once. \<open>intr\<close> is what
  \<^verbatim>\<open>watcher.isInterrupted()\<close> answers when the run begins.
\<close>

definition init :: "nat \<Rightarrow> nat \<Rightarrow> bool \<Rightarrow> par_state" where
  "init K n intr =
     promise_all n
       \<lparr>phases = [], interrupted = intr, race = None, returned = None,
        exit_code = None, trace = [NewWorker K, WatcherOnChange]\<rparr>"

definition createParallelTestRun :: "nat \<Rightarrow> nat \<Rightarrow> bool \<Rightarrow> label list \<Rightarrow> par_state" where
  "createParallelTestRun K n intr ls = foldl (step K n) (init K n intr) ls"

subsection \<open>The entry point\<close>

text \<open>What a caller and the collaborators can observe of a run.\<close>

record observation =
  settled_as :: "unit settlement option"
  exited_with :: "nat option"
  actions :: "action list"

text \<open>
  \<^verbatim>\<open>runTests\<close>: \<^verbatim>\<open>options.serial\<close> selects the strategy. \<open>K\<close> is
  \<^verbatim>\<open>globalConfig.maxWorkers\<close>, \<open>n\<close> the number of tests; \<open>env\<close> is the environment of
  a sequential run, \<open>intr\<close> and \<open>ls\<close> that of a parallel one.
\<close>

definition runTests ::
  "bool \<Rightarrow> nat \<Rightarrow> nat \<Rightarrow> (nat \<Rightarrow> in_band_env) \<Rightarrow> bool \<Rightarrow> label list \<Rightarrow> observation"
where
  "runTests serial K n env intr ls =
     (if serial then
        (case createInBandTestRun n env of
           (out, tr) \<Rightarrow> \<lparr>settled_as = Some out, exited_with = None, actions = tr\<rparr>)
      else
        (let s = createParallelTestRun K n intr ls
         in \<lparr>settled_as = returned s, exited_with = exit_code s, actions = trace s\<rparr>))"

subsection \<open>Observations on traces and invariants\<close>

text \<open>A terminal event of the test at position \<open>i\<close>: its success or its failure event.\<close>

fun is_terminal_of :: "nat \<Rightarrow> action \<Rightarrow> bool" where
  "is_terminal_of i (TestFileSuccess j r) = (j = i)"
| "is_terminal_of i (TestFileFailure j e) = (j = i)"
| "is_terminal_of i a = False"

definition terminal_events :: "nat \<Rightarrow> action list \<Rightarrow> action list" where
  "terminal_events i tr = filter (is_terminal_of i) tr"

text \<open>The tests of the start events, of the pool dispatches and of the in-process executions
  of a trace, in the order of the trace.\<close>

fun starts :: "action list \<Rightarrow> nat list" where
  "starts [] = []"
| "starts (TestFileStart i # tr) = i # starts tr"
| "starts (a # tr) = starts tr"

fun dispatches :: "action list \<Rightarrow> nat list" where
  "dispatches [] = []"
| "dispatches (WorkerCall i # tr) = i # dispatches tr"
| "dispatches (a # tr) = dispatches tr"

fun executions :: "action list \<Rightarrow> nat list" where
  "executions [] = []"
| "executions (RunTest i # tr) = i # executions tr"
| "executions (a # tr) = executions tr"

text \<open>The number of in-process executions under way at the end of a trace: calls of
  \<^verbatim>\<open>runTest\<close> whose promise has not settled.\<close>

fun exec_step :: "nat \<Rightarrow> action \<Rightarrow> nat" where
  "exec_step k (RunTest i) = Suc k"
| "exec_step k (RunTestSettled i) = k - 1"
| "exec_step k a = k"

definition executing :: "action list \<Rightarrow> nat" where
  "executing tr = foldl exec_step 0 tr"

text \<open>The calls on the worker pool: construction, dispatch and teardown.\<close>

fun pool_action :: "action \<Rightarrow> bool" where
  "pool_action (NewWorker k) = True"
| "pool_action (WorkerCall i) = True"
| "pool_action WorkerEnd = True"
| "pool_action a = False"

text \<open>What the reducer of the sequential run does for one test on a fulfilled chain.\<close>

definition in_band_actions :: "in_band_env \<Rightarrow> nat \<Rightarrow> action list" where
  "in_band_actions env i =
     (if is_interrupted env then [TestFileFailure i CancelRun]
      else [TestFileStart i, RunTest i, RunTestSettled i,
            (case run_test_settles env of
               Fulfilled result \<Rightarrow> TestFileSuccess i result
             | Rejected err \<Rightarrow> TestFileFailure i err)])"



text \<open>Whether a test that has left the queue was started (its start event was emitted),
  whether it was handed to the pool, and whether its handler has emitted its terminal
  event.\<close>

fun started :: "phase \<Rightarrow> bool" where
  "started Starting = True"
| "started InFlight = True"
| "started GateRejected = False"
| "started (Settled r) = True"
| "started Succeeded = True"
| "started (Awaiting st e) = st"
| "started (Returning st) = st"
| "started (Finished st out) = st"

fun dispatched :: "phase \<Rightarrow> bool" where
  "dispatched Starting = False"
| "dispatched p = started p"

fun handled :: "phase \<Rightarrow> bool" where
  "handled Succeeded = True"
| "handled (Awaiting st e) = True"
| "handled (Returning st) = True"
| "handled (Finished st out) = True"
| "handled p = False"

text \<open>The start event and the dispatch of one test, as they occur in a trace.\<close>

definition start_and_dispatch :: "nat \<Rightarrow> action list \<Rightarrow> action list" where
  "start_and_dispatch i tr = filter (\<lambda>a. a = TestFileStart i \<or> a = WorkerCall i) tr"

text \<open>The number of teardowns of the pool in a trace.\<close>

definition teardowns :: "action list \<Rightarrow> nat" where
  "teardowns tr = length (filter (\<lambda>a. a = WorkerEnd) tr)"

text \<open>
  Every call of \<^verbatim>\<open>exit\<close> in a trace has status 1, comes right after the diagnostic, and
  after the failure event of a fatal error. \<open>pre\<close> is the part of the trace already
  read.
\<close>

fun is_fatal_failure :: "action \<Rightarrow> bool" where
  "is_fatal_failure (TestFileFailure i e) = is_fatal e"
| "is_fatal_failure a = False"

fun exits_ok :: "action list \<Rightarrow> action list \<Rightarrow> bool" where
  "exits_ok pre [] = True"
| "exits_ok pre (Exit c # tr) =
     (c = 1 \<and> pre \<noteq> [] \<and> last pre = ConsoleError fatal_message \<and>
      list_ex is_fatal_failure pre \<and> exits_ok (pre @ [Exit c]) tr)"
| "exits_ok pre (a # tr) = exits_ok (pre @ [a]) tr"

text \<open>Invariants of the parallel run: the gate, the order of the starts, the dispatches, the
  terminal events, the tests rejected at the gate, the failure event behind every pending
  \<^verbatim>\<open>onError\<close>, the race and its teardown, the exits.\<close>

definition inv_gate :: "nat \<Rightarrow> nat \<Rightarrow> par_state \<Rightarrow> bool" where
  "inv_gate K n s = (length (phases s) \<le> n \<and> in_flight s \<le> K)"

definition inv_starts :: "par_state \<Rightarrow> bool" where
  "inv_starts s =
     (starts (trace s) = filter (\<lambda>i. started (phases s ! i)) [0..<length (phases s)])"

definition inv_dispatch :: "par_state \<Rightarrow> bool" where
  "inv_dispatch s =
     (\<forall>i. start_and_dispatch i (trace s) =
          (if i < length (phases s) \<and> started (phases s ! i)
           then TestFileStart i # (if dispatched (phases s ! i) then [WorkerCall i] else [])
           else []))"

definition inv_terminals :: "par_state \<Rightarrow> bool" where
  "inv_terminals s =
     (\<forall>i. length (terminal_events i (trace s)) =
          (if i < length (phases s) \<and> handled (phases s ! i) then 1 else 0))"

definition inv_awaiting :: "par_state \<Rightarrow> bool" where
  "inv_awaiting s =
     (\<forall>i st e. i < length (phases s) \<and> phases s ! i = Awaiting st e \<longrightarrow>
               TestFileFailure i e \<in> set (trace s))"

definition inv_race :: "par_state \<Rightarrow> bool" where
  "inv_race s =
     (teardowns (trace s) = (if race s = None then 0 else 1) \<and>
      returned s = (if race s = None then None else Some (Fulfilled ())))"

definition inv_exit :: "par_state \<Rightarrow> bool" where
  "inv_exit s =
     (exits_ok [] (trace s) \<and>
      (case exit_code s of
         None \<Rightarrow> \<forall>c. Exit c \<notin> set (trace s)
       | Some c \<Rightarrow> c = 1 \<and> Exit 1 \<in> set (trace s)))"


definition inv_done :: "nat \<Rightarrow> par_state \<Rightarrow> bool" where
  "inv_done n s =
     (length (phases s) = n \<and> list_all is_fulfilled (phases s) \<longrightarrow> race s \<noteq> None)"

definition inv_rejected :: "par_state \<Rightarrow> bool" where
  "inv_rejected s =
     (\<forall>i st x. i < length (phases s) \<and> phases s ! i = Finished st (Rejected x) \<longrightarrow>
               race s \<noteq> None)"

subsection \<open>Example inputs\<close>

text \<open>
  Errors as the pool reports them: one of a terminated worker process, one of a failed
  assertion. Environments of a sequential run: every test passes, every test fails, the
  watcher is interrupted at every check.
\<close>

definition example_fatal :: jserror where
  "example_fatal = ErrorObject ''Error'' (Some ''ProcessTerminatedError'') ''worker gone''"

definition example_ordinary :: jserror where
  "example_ordinary = ErrorObject ''Error'' None ''assertion failed''"

definition always_passing :: "nat \<Rightarrow> in_band_env" where
  "always_passing i = InBandEnv False (Fulfilled ''ok'')"

definition always_failing :: "nat \<Rightarrow> in_band_env" where
  "always_failing i = InBandEnv False (Rejected example_ordinary)"

definition always_interrupted :: "nat \<Rightarrow> in_band_env" where
  "always_interrupted i = InBandEnv True (Fulfilled ''ok'')"

section \<open>Properties of the sequential run\<close>

lemma in_band_test_fulfilled:
  "in_band_test env i (Fulfilled (), tr) = (Fulfilled (), tr @ in_band_actions env i)"
  by (cases "run_test_settles env")
     (simp_all add: in_band_test_def in_band_actions_def emit_def runTest_def)

lemma createInBandTestRun_Suc:
  "createInBandTestRun (Suc n) env = in_band_test (env n) n (createInBandTestRun n env)"
  by (simp add: createInBandTestRun_def)

lemma createInBandTestRun_0: "createInBandTestRun 0 env = (Fulfilled (), [SetWorkerId])"
  by (simp add: createInBandTestRun_def)

lemma in_band_fulfilled: "fst (createInBandTestRun n env) = Fulfilled ()"
proof (induction n)
  case 0
  show ?case by (simp add: createInBandTestRun_0)
next
  case (Suc n)
  then obtain tr where "createInBandTestRun n env = (Fulfilled (), tr)"
    by (cases "createInBandTestRun n env") simp
  then show ?case by (simp add: createInBandTestRun_Suc in_band_test_fulfilled)
qed

lemma in_band_trace_Suc:
  "snd (createInBandTestRun (Suc n) env) =
     snd (createInBandTestRun n env) @ in_band_actions (env n) n"
proof -
  obtain tr where "createInBandTestRun n env = (Fulfilled (), tr)"
    using in_band_fulfilled [of n env] by (cases "createInBandTestRun n env") simp
  then show ?thesis by (simp add: createInBandTestRun_Suc in_band_test_fulfilled)
qed

lemma starts_append: "starts (xs @ ys) = starts xs @ starts ys"
  by (induction xs rule: starts.induct) simp_all

lemma executions_append: "executions (xs @ ys) = executions xs @ executions ys"
  by (induction xs rule: executions.induct) simp_all

lemma dispatches_append: "dispatches (xs @ ys) = dispatches xs @ dispatches ys"
  by (induction xs rule: dispatches.induct) simp_all

lemma in_band_starts:
  "starts (snd (createInBandTestRun n env)) = filter (\<lambda>i. \<not> is_interrupted (env i)) [0..<n]"
  by (induction n)
     (simp_all add: createInBandTestRun_0 in_band_trace_Suc starts_append in_band_actions_def
           split: settlement.splits)

lemma in_band_executions:
  "executions (snd (createInBandTestRun n env)) = filter (\<lambda>i. \<not> is_interrupted (env i)) [0..<n]"
  by (induction n)
     (simp_all add: createInBandTestRun_0 in_band_trace_Suc executions_append in_band_actions_def
           split: settlement.splits)

lemma in_band_terminal_events:
  "length (terminal_events i (snd (createInBandTestRun n env))) = (if i < n then 1 else 0)"
  by (induction n)
     (auto simp: createInBandTestRun_0 in_band_trace_Suc terminal_events_def in_band_actions_def
           split: settlement.splits)

lemma in_band_no_pool: "\<not> list_ex pool_action (snd (createInBandTestRun n env))"
  by (induction n)
     (auto simp: createInBandTestRun_0 in_band_trace_Suc in_band_actions_def list_ex_iff
           split: settlement.splits)

lemma executing_append: "executing (xs @ ys) = foldl exec_step (executing xs) ys"
  by (simp add: executing_def)

lemma in_band_executing_0: "executing (snd (createInBandTestRun n env)) = 0"
  by (induction n)
     (auto simp: createInBandTestRun_0 in_band_trace_Suc executing_append in_band_actions_def
           executing_def split: settlement.splits)

lemma in_band_actions_prefix:
  "prefix q (in_band_actions env i) \<Longrightarrow> foldl exec_step 0 q \<le> 1"
  by (auto simp: in_band_actions_def prefix_Cons split: if_splits settlement.splits)

lemma in_band_executing:
  "prefix p (snd (createInBandTestRun n env)) \<Longrightarrow> executing p \<le> 1"
proof (induction n arbitrary: p)
  case 0
  then show ?case by (auto simp: createInBandTestRun_0 prefix_Cons executing_def)
next
  case (Suc n)
  from Suc.prems
  consider "prefix p (snd (createInBandTestRun n env))"
    | q where "p = snd (createInBandTestRun n env) @ q" "prefix q (in_band_actions (env n) n)"
    by (auto simp: in_band_trace_Suc prefix_append)
  then show ?case
  proof cases
    case 1
    then show ?thesis by (rule Suc.IH)
  next
    case 2
    then show ?thesis
      using in_band_actions_prefix [of q "env n" n]
      by (simp add: executing_append in_band_executing_0)
  qed
qed

section \<open>Properties of the parallel run\<close>

lemma settle_race_fields:
  "phases (settle_race r s) = phases s"
  "interrupted (settle_race r s) = interrupted s"
  "exit_code (settle_race r s) = exit_code s"
  "trace (settle_race r s) = trace s @ (if race s = None then [WorkerEnd] else [])"
  "race (settle_race r s) = (if race s = None then Some r else race s)"
  "returned (settle_race r s) = (if race s = None then Some (Fulfilled ()) else returned s)"
  by (cases r; simp add: settle_race_def cleanup_def)+

lemma promise_all_fields:
  "phases (promise_all n s) = phases s"
  "interrupted (promise_all n s) = interrupted s"
  "exit_code (promise_all n s) = exit_code s"
  "trace (promise_all n s) =
     trace s @ (if race s = None \<and> length (phases s) = n \<and> list_all is_fulfilled (phases s)
                then [WorkerEnd] else [])"
  "race (promise_all n s) =
     (if race s = None \<and> length (phases s) = n \<and> list_all is_fulfilled (phases s)
      then Some (Fulfilled ()) else race s)"
  "returned (promise_all n s) =
     (if race s = None \<and> length (phases s) = n \<and> list_all is_fulfilled (phases s)
      then Some (Fulfilled ()) else returned s)"
  by (simp_all add: promise_all_def settle_race_fields)

lemmas race_fields = settle_race_fields promise_all_fields

lemma foldl_invariant:
  assumes "P s" and "\<And>s l. P s \<Longrightarrow> P (f s l)"
  shows "P (foldl f s ls)"
  using assms(1) by (induction ls arbitrary: s) (simp_all add: assms(2))

lemma length_filter_update:
  "i < length xs \<Longrightarrow>
   length (filter P (xs[i := y])) + (if P (xs ! i) then 1 else 0) =
   length (filter P xs) + (if P y then 1 else 0)"
proof (induction xs arbitrary: i)
  case Nil
  then show ?case by simp
next
  case (Cons x xs)
  then show ?case by (cases i) auto
qed

subsection \<open>The moves of the parallel run, case by case\<close>

lemma step_cases [case_names Same AdmitReject AdmitStart Dispatched Settled Success Failure
    CancelFailure Done Throw Fatal Ordinary Returned Interrupted]:
  obtains
    "step K n s l = s"
  | "length (phases s) < n" "in_flight s < K" "interrupted s"
    "step K n s l = s\<lparr>phases := phases s @ [GateRejected]\<rparr>"
  | "length (phases s) < n" "in_flight s < K" "\<not> interrupted s"
    "step K n s l =
       s\<lparr>phases := phases s @ [Starting],
          trace := trace s @ [TestFileStart (length (phases s))]\<rparr>"
  | i where "i < length (phases s)" "phases s ! i = Starting"
    "step K n s l =
       s\<lparr>phases := (phases s)[i := InFlight], trace := trace s @ [WorkerCall i]\<rparr>"
  | i r where "i < length (phases s)" "phases s ! i = InFlight"
    "step K n s l = s\<lparr>phases := (phases s)[i := Settled r]\<rparr>"
  | i r where "i < length (phases s)" "phases s ! i = Settled (Fulfilled r)"
    "step K n s l =
       s\<lparr>phases := (phases s)[i := Succeeded], trace := trace s @ [TestFileSuccess i r]\<rparr>"
  | i e where "i < length (phases s)" "phases s ! i = Settled (Rejected e)"
    "step K n s l =
       s\<lparr>phases := (phases s)[i := Awaiting True e],
          trace := trace s @ [TestFileFailure i e]\<rparr>"
  | i where "i < length (phases s)" "phases s ! i = GateRejected"
    "step K n s l =
       s\<lparr>phases := (phases s)[i := Awaiting False Undefined],
          trace := trace s @ [TestFileFailure i Undefined]\<rparr>"
  | i where "i < length (phases s)" "phases s ! i = Succeeded"
    "step K n s l = promise_all n (s\<lparr>phases := (phases s)[i := Finished True (Fulfilled ())]\<rparr>)"
  | i st where "i < length (phases s)" "phases s ! i = Awaiting st Undefined"
    "step K n s l =
       settle_race (Rejected TypeError)
         (s\<lparr>phases := (phases s)[i := Finished st (Rejected TypeError)]\<rparr>)"
  | i st e where "i < length (phases s)" "phases s ! i = Awaiting st e" "is_fatal e"
    "step K n s l =
       s\<lparr>phases := (phases s)[i := Returning st], exit_code := Some 1,
          trace := trace s @ [ConsoleError fatal_message, Exit 1]\<rparr>"
  | i st e where "i < length (phases s)" "phases s ! i = Awaiting st e"
    "e \<noteq> Undefined" "\<not> is_fatal e"
    "step K n s l = promise_all n (s\<lparr>phases := (phases s)[i := Finished st (Fulfilled ())]\<rparr>)"
  | i st where "i < length (phases s)" "phases s ! i = Returning st"
    "step K n s l = promise_all n (s\<lparr>phases := (phases s)[i := Finished st (Fulfilled ())]\<rparr>)"
  | "step K n s l = settle_race (Rejected CancelRun) (s\<lparr>interrupted := True\<rparr>)"
proof (cases l)
  case Admit
  show ?thesis
  proof (cases "length (phases s) < n \<and> in_flight s < K")
    case False
    show ?thesis
      by (rule that(1)) (use False Admit in \<open>auto simp: step_def admit_def Let_def\<close>)
  next
    case True
    show ?thesis
    proof (cases "interrupted s")
      case True
      show ?thesis
        by (rule that(2))
           (use \<open>length (phases s) < n \<and> in_flight s < K\<close> True Admit
            in \<open>simp_all add: step_def admit_def Let_def\<close>)
    next
      case False
      show ?thesis
        by (rule that(3))
           (use \<open>length (phases s) < n \<and> in_flight s < K\<close> False Admit
            in \<open>simp_all add: step_def admit_def Let_def\<close>)
    qed
  qed
next
  case (Dispatch i)
  show ?thesis
  proof (cases "i < length (phases s) \<and> phases s ! i = Starting")
    case False
    show ?thesis by (rule that(1)) (use False Dispatch in \<open>auto simp: step_def dispatch_def\<close>)
  next
    case True
    show ?thesis
      by (rule that(4) [of i]) (use True Dispatch in \<open>simp_all add: step_def dispatch_def\<close>)
  qed
next
  case (Settle i r)
  show ?thesis
  proof (cases "i < length (phases s) \<and> phases s ! i = InFlight")
    case False
    show ?thesis by (rule that(1)) (use False Settle in \<open>auto simp: step_def settle_def\<close>)
  next
    case True
    show ?thesis
      by (rule that(5) [of i r]) (use True Settle in \<open>simp_all add: step_def settle_def\<close>)
  qed
next
  case (Handle i)
  show ?thesis
  proof (cases "i < length (phases s)")
    case False
    show ?thesis by (rule that(1)) (use False Handle in \<open>auto simp: step_def handle_def\<close>)
  next
    case True
    show ?thesis
    proof (cases "phases s ! i")
      case (Settled x)
      show ?thesis
      proof (cases x)
        case (Fulfilled r)
        show ?thesis
          by (rule that(6) [of i r])
             (use Fulfilled Settled True Handle in \<open>simp_all add: step_def handle_def\<close>)
      next
        case (Rejected e)
        show ?thesis
          by (rule that(7) [of i e])
             (use Rejected Settled True Handle in \<open>simp_all add: step_def handle_def\<close>)
      qed
    next
      case GateRejected
      show ?thesis
        by (rule that(8) [of i])
           (use GateRejected True Handle in \<open>simp_all add: step_def handle_def\<close>)
    qed (rule that(1); use True Handle in \<open>simp add: step_def handle_def\<close>)+
  qed
next
  case (Resume i)
  show ?thesis
  proof (cases "i < length (phases s)")
    case False
    show ?thesis by (rule that(1)) (use False Resume in \<open>auto simp: step_def resume_def\<close>)
  next
    case True
    show ?thesis
    proof (cases "phases s ! i")
      case Succeeded
      show ?thesis
        by (rule that(9) [of i])
           (use Succeeded True Resume in \<open>simp_all add: step_def resume_def\<close>)
    next
      case (Returning st)
      show ?thesis
        by (rule that(13) [of i st])
           (use Returning True Resume in \<open>simp_all add: step_def resume_def\<close>)
    next
      case (Awaiting st e)
      show ?thesis
      proof (cases e)
        case Undefined
        show ?thesis
          by (rule that(10) [of i st])
             (use Undefined Awaiting True Resume in \<open>simp_all add: step_def resume_def\<close>)
      next
        case (ErrorObject nm ty msg)
        show ?thesis
        proof (cases "ty = Some ''ProcessTerminatedError''")
          case True
          show ?thesis
            by (rule that(11) [of i st e])
               (use True ErrorObject Awaiting \<open>i < length (phases s)\<close> Resume
                in \<open>simp_all add: step_def resume_def is_fatal_def\<close>)
        next
          case False
          show ?thesis
            by (rule that(12) [of i st e])
               (use False ErrorObject Awaiting \<open>i < length (phases s)\<close> Resume
                in \<open>simp_all add: step_def resume_def is_fatal_def\<close>)
        qed
      qed
    qed (rule that(1); use True Resume in \<open>simp add: step_def resume_def\<close>)+
  qed
next
  case Interrupt
  show ?thesis
    by (rule that(14)) (use Interrupt in \<open>simp_all add: step_def interrupt_def\<close>)
qed

subsection \<open>Every move preserves the invariants\<close>

lemma in_flight_update:
  "i < length xs \<Longrightarrow> holds_slot p \<longrightarrow> holds_slot (xs ! i) \<Longrightarrow>
   length (filter holds_slot xs) \<le> K \<Longrightarrow> length (filter holds_slot (xs[i := p])) \<le> K"
  using length_filter_update [of i xs holds_slot p]
  by (simp split: if_splits)

lemma inv_gate_step: "inv_gate K n s \<Longrightarrow> inv_gate K n (step K n s l)"
  unfolding inv_gate_def in_flight_def
  by (cases rule: step_cases [of K n s l])
     (simp_all add: race_fields in_flight_update in_flight_def)

lemma filter_started_update:
  "i < length ph \<Longrightarrow> started p = started (ph ! i) \<Longrightarrow>
   filter (\<lambda>j. started (ph[i := p] ! j)) [0..<length ph] =
   filter (\<lambda>j. started (ph ! j)) [0..<length ph]"
  by (rule filter_cong) (auto simp: nth_list_update)

lemma filter_started_append:
  "filter (\<lambda>j. started ((ph @ [p]) ! j)) [0..<length ph] =
   filter (\<lambda>j. started (ph ! j)) [0..<length ph]"
  by (rule filter_cong) (auto simp: nth_append)

lemma inv_starts_step: "inv_starts s \<Longrightarrow> inv_starts (step K n s l)"
  unfolding inv_starts_def
  by (cases rule: step_cases [of K n s l])
     (simp_all add: race_fields starts_append filter_started_update filter_started_append)

lemma inv_dispatch_step: "inv_dispatch s \<Longrightarrow> inv_dispatch (step K n s l)"
  unfolding inv_dispatch_def start_and_dispatch_def
  by (cases rule: step_cases [of K n s l])
     (auto simp: race_fields nth_list_update nth_append)

lemma inv_terminals_step: "inv_terminals s \<Longrightarrow> inv_terminals (step K n s l)"
  unfolding inv_terminals_def terminal_events_def
  by (cases rule: step_cases [of K n s l])
     (auto simp: race_fields nth_list_update nth_append)


lemma inv_awaiting_step: "inv_awaiting s \<Longrightarrow> inv_awaiting (step K n s l)"
  unfolding inv_awaiting_def
  by (cases rule: step_cases [of K n s l])
     (auto simp: race_fields nth_list_update nth_append)

lemma inv_race_step: "inv_race s \<Longrightarrow> inv_race (step K n s l)"
  unfolding inv_race_def teardowns_def
  by (cases rule: step_cases [of K n s l])
     (auto simp: race_fields)

lemma exits_ok_append:
  "exits_ok pre (xs @ ys) \<longleftrightarrow> exits_ok pre xs \<and> exits_ok (pre @ xs) ys"
  by (induction pre xs rule: exits_ok.induct) simp_all

lemma exits_ok_at:
  "exits_ok pre tr \<Longrightarrow> tr = a @ Exit c # b \<Longrightarrow>
   c = 1 \<and> (\<exists>p. pre @ a = p @ [ConsoleError fatal_message]) \<and>
   list_ex is_fatal_failure (pre @ a)"
proof (induction a arbitrary: pre tr)
  case Nil
  then have "pre \<noteq> [] \<and> last pre = ConsoleError fatal_message" by simp
  then have "pre = butlast pre @ [ConsoleError fatal_message]"
    by (metis append_butlast_last_id)
  with Nil show ?case by auto
next
  case (Cons x a)
  then have "exits_ok (pre @ [x]) (a @ Exit c # b)"
    by (cases x) auto
  from Cons.IH [OF this refl] show ?case by simp
qed

lemma inv_exit_step:
  assumes "inv_awaiting s" and "inv_exit s"
  shows "inv_exit (step K n s l)"
proof (cases rule: step_cases [of K n s l])
  case (Fatal i st e)
  have "TestFileFailure i e \<in> set (trace s)"
    using assms(1) Fatal(1,2) by (auto simp: inv_awaiting_def)
  then have "list_ex is_fatal_failure (trace s)"
    using Fatal(3) by (auto simp: list_ex_iff intro: bexI [of _ "TestFileFailure i e"])
  then show ?thesis
    using assms(2) by (simp add: inv_exit_def Fatal(4) exits_ok_append)
qed (use assms(2) in \<open>auto simp: inv_exit_def race_fields exits_ok_append
       split: option.splits\<close>)

lemma list_all_update_not_fulfilled:
  "i < length ph \<Longrightarrow> \<not> is_fulfilled p \<Longrightarrow> \<not> list_all is_fulfilled (ph[i := p])"
  by (auto simp: list_all_length nth_list_update intro: exI [of _ i])

lemma inv_done_step: "inv_done n s \<Longrightarrow> inv_done n (step K n s l)"
  unfolding inv_done_def
  by (cases rule: step_cases [of K n s l])
     (auto simp: race_fields list_all_update_not_fulfilled)

lemma inv_rejected_step: "inv_rejected s \<Longrightarrow> inv_rejected (step K n s l)"
  unfolding inv_rejected_def
  by (cases rule: step_cases [of K n s l])
     (auto simp: race_fields nth_list_update nth_append split: if_splits)

subsection \<open>Every state of a run satisfies the invariants\<close>

lemma init_fields:
  "phases (init K n intr) = []"
  "interrupted (init K n intr) = intr"
  "exit_code (init K n intr) = None"
  "trace (init K n intr) = [NewWorker K, WatcherOnChange] @ (if n = 0 then [WorkerEnd] else [])"
  "race (init K n intr) = (if n = 0 then Some (Fulfilled ()) else None)"
  "returned (init K n intr) = (if n = 0 then Some (Fulfilled ()) else None)"
  by (auto simp: init_def race_fields)

lemma run_snoc:
  "createParallelTestRun K n intr (ls @ ls') =
     foldl (step K n) (createParallelTestRun K n intr ls) ls'"
  by (simp add: createParallelTestRun_def)

lemma run_invariant:
  assumes "P (init K n intr)" and "\<And>s l. P s \<Longrightarrow> P (step K n s l)"
  shows "P (createParallelTestRun K n intr ls)"
  unfolding createParallelTestRun_def using assms by (rule foldl_invariant)

lemma par_inv_gate: "inv_gate K n (createParallelTestRun K n intr ls)"
proof (rule run_invariant [where P = "inv_gate K n"])
  show "inv_gate K n (init K n intr)"
    by (simp add: inv_gate_def in_flight_def init_fields)
qed (rule inv_gate_step)

lemma par_inv_starts: "inv_starts (createParallelTestRun K n intr ls)"
proof (rule run_invariant [where P = inv_starts])
  show "inv_starts (init K n intr)"
    by (simp add: inv_starts_def init_fields)
qed (rule inv_starts_step)

lemma par_inv_dispatch: "inv_dispatch (createParallelTestRun K n intr ls)"
proof (rule run_invariant [where P = inv_dispatch])
  show "inv_dispatch (init K n intr)"
    by (simp add: inv_dispatch_def start_and_dispatch_def init_fields)
qed (rule inv_dispatch_step)

lemma par_inv_terminals: "inv_terminals (createParallelTestRun K n intr ls)"
proof (rule run_invariant [where P = inv_terminals])
  show "inv_terminals (init K n intr)"
    by (simp add: inv_terminals_def terminal_events_def init_fields)
qed (rule inv_terminals_step)


lemma par_inv_awaiting: "inv_awaiting (createParallelTestRun K n intr ls)"
proof (rule run_invariant [where P = inv_awaiting])
  show "inv_awaiting (init K n intr)"
    by (simp add: inv_awaiting_def init_fields)
qed (rule inv_awaiting_step)

lemma par_inv_race: "inv_race (createParallelTestRun K n intr ls)"
proof (rule run_invariant [where P = inv_race])
  show "inv_race (init K n intr)"
    by (simp add: inv_race_def teardowns_def init_fields)
qed (rule inv_race_step)

lemma par_inv_done: "inv_done n (createParallelTestRun K n intr ls)"
proof (rule run_invariant [where P = "inv_done n"])
  show "inv_done n (init K n intr)"
    by (auto simp: inv_done_def init_fields)
qed (rule inv_done_step)

lemma par_inv_exit: "inv_exit (createParallelTestRun K n intr ls)"
proof -
  have "inv_awaiting (createParallelTestRun K n intr ls) \<and>
        inv_exit (createParallelTestRun K n intr ls)"
  proof (rule run_invariant [where P = "\<lambda>s. inv_awaiting s \<and> inv_exit s"])
    show "inv_awaiting (init K n intr) \<and> inv_exit (init K n intr)"
      by (simp add: inv_awaiting_def inv_exit_def init_fields)
  qed (simp add: inv_awaiting_step inv_exit_step)
  then show ?thesis ..
qed

lemma par_inv_rejected: "inv_rejected (createParallelTestRun K n intr ls)"
proof (rule run_invariant [where P = inv_rejected])
  show "inv_rejected (init K n intr)"
    by (simp add: inv_rejected_def init_fields)
qed (rule inv_rejected_step)

lemma finished_cases:
  "is_finished p \<Longrightarrow> is_fulfilled p \<or> (\<exists>st x. p = Finished st (Rejected x))"
  by (cases p rule: is_fulfilled.cases) simp_all

lemma all_finished_settled:
  assumes "length (phases (createParallelTestRun K n intr ls)) = n"
    and "list_all is_finished (phases (createParallelTestRun K n intr ls))"
  shows "returned (createParallelTestRun K n intr ls) = Some (Fulfilled ())"
proof -
  let ?r = "createParallelTestRun K n intr ls"
  have "race ?r \<noteq> None"
  proof (cases "list_all is_fulfilled (phases ?r)")
    case True
    then show ?thesis
      using assms(1) par_inv_done [of n K intr ls] by (simp add: inv_done_def)
  next
    case False
    then obtain i where i: "i < length (phases ?r)" "\<not> is_fulfilled (phases ?r ! i)"
      by (auto simp: list_all_length)
    then have "is_finished (phases ?r ! i)"
      using assms(2) by (simp add: list_all_length)
    then obtain st x where "phases ?r ! i = Finished st (Rejected x)"
      using i(2) finished_cases by blast
    then show ?thesis
      using i(1) par_inv_rejected [of K n intr ls] unfolding inv_rejected_def by blast
  qed
  then show ?thesis
    using par_inv_race [of K n intr ls] by (simp add: inv_race_def)
qed

lemma fatal_failure_cases:
  "is_fatal_failure a \<Longrightarrow> \<exists>i e. a = TestFileFailure i e \<and> is_fatal e"
  by (cases a) simp_all

lemma exit_in_trace:
  assumes "trace (createParallelTestRun K n intr ls) = pre @ Exit c # post"
  shows "c = 1 \<and> (\<exists>p. pre = p @ [ConsoleError fatal_message]) \<and>
         (\<exists>i e. is_fatal e \<and> TestFileFailure i e \<in> set pre)"
proof -
  have "exits_ok [] (trace (createParallelTestRun K n intr ls))"
    using par_inv_exit [of K n intr ls] by (simp add: inv_exit_def)
  from exits_ok_at [OF this assms]
  have a: "c = 1" "\<exists>p. pre = p @ [ConsoleError fatal_message]" "list_ex is_fatal_failure pre"
    by simp_all
  from a(3) obtain x where "x \<in> set pre" "is_fatal_failure x"
    by (auto simp: list_ex_iff)
  then have "\<exists>i e. is_fatal e \<and> TestFileFailure i e \<in> set pre"
    using fatal_failure_cases by blast
  with a show ?thesis by simp
qed

subsection \<open>Traces of the two strategies, and evaluation\<close>

lemma start_in_trace: "TestFileStart i \<in> set tr \<longleftrightarrow> i \<in> set (starts tr)"
  by (induction tr rule: starts.induct) auto



lemmas run_simps =
  createParallelTestRun_def init_def step_def admit_def dispatch_def settle_def handle_def
  resume_def interrupt_def promise_all_def settle_race_def cleanup_def in_flight_def Let_def
  is_fatal_def example_fatal_def example_ordinary_def

lemmas in_band_simps =
  createInBandTestRun_def in_band_test_def emit_def runTest_def always_passing_def
  always_failing_def always_interrupted_def example_ordinary_def

section \<open>The claims\<close>

text \<open>
  C1, as stated: for every run and every admitted test (a test whose start event was
  emitted), exactly one terminal event, \<^verbatim>\<open>test-file-success\<close> or \<^verbatim>\<open>test-file-failure\<close>,
  is emitted for that test, in both strategies.

  This fails for a parallel run that a fatal fault ends. With two workers and two tests,
  both tests are admitted and dispatched; the first fails with a terminated worker
  process, its failure event is emitted and \<^verbatim>\<open>exit(1)\<close> is called. When the process ends
  there, the second test has its start event and no terminal event.
\<close>

theorem C1_counterexample:
  "exit_code
     (createParallelTestRun 2 2 False
        [Admit, Admit, Dispatch 0, Dispatch 1, Settle 0 (Rejected example_fatal), Handle 0,
         Resume 0]) = Some 1 \<and>
   trace
     (createParallelTestRun 2 2 False
        [Admit, Admit, Dispatch 0, Dispatch 1, Settle 0 (Rejected example_fatal), Handle 0,
         Resume 0]) =
     [NewWorker 2, WatcherOnChange, TestFileStart 0, TestFileStart 1, WorkerCall 0,
      WorkerCall 1, TestFileFailure 0 example_fatal, ConsoleError fatal_message, Exit 1] \<and>
   TestFileStart 1 \<in> set (trace
     (createParallelTestRun 2 2 False
        [Admit, Admit, Dispatch 0, Dispatch 1, Settle 0 (Rejected example_fatal), Handle 0,
         Resume 0])) \<and>
   terminal_events 1 (trace
     (createParallelTestRun 2 2 False
        [Admit, Admit, Dispatch 0, Dispatch 1, Settle 0 (Rejected example_fatal), Handle 0,
         Resume 0])) = []"
  by (simp add: run_simps terminal_events_def)

text \<open>
  C1, as the code has it. In every sequential run, every test whose start event was
  emitted has exactly one terminal event. In every parallel run, whatever the schedule,
  the start event of a test is in the trace exactly when the test has left the gate as
  started; no test ever has more than one terminal event; a test has exactly one as soon
  as its handler has run; and for a test in flight, the settlement of its worker call
  followed by its handler brings exactly one terminal event.
\<close>

theorem C1_one_terminal_event:
  "(TestFileStart i \<in> set (snd (createInBandTestRun n env)) \<longrightarrow>
      length (terminal_events i (snd (createInBandTestRun n env))) = 1) \<and>
   (TestFileStart j \<in> set (trace (createParallelTestRun K m intr ls)) \<longleftrightarrow>
      j < length (phases (createParallelTestRun K m intr ls)) \<and>
      started (phases (createParallelTestRun K m intr ls) ! j)) \<and>
   length (terminal_events j (trace (createParallelTestRun K m intr ls))) \<le> 1 \<and>
   (j < length (phases (createParallelTestRun K m intr ls)) \<and>
    handled (phases (createParallelTestRun K m intr ls) ! j) \<longrightarrow>
      length (terminal_events j (trace (createParallelTestRun K m intr ls))) = 1) \<and>
   (j < length (phases (createParallelTestRun K m intr ls)) \<and>
    phases (createParallelTestRun K m intr ls) ! j = InFlight \<longrightarrow>
      length (terminal_events j
        (trace (createParallelTestRun K m intr (ls @ [Settle j x, Handle j])))) = 1)"
proof -
  let ?r = "createParallelTestRun K m intr ls"
  let ?r' = "createParallelTestRun K m intr (ls @ [Settle j x, Handle j])"
  have seq: "TestFileStart i \<in> set (snd (createInBandTestRun n env)) \<longrightarrow>
      length (terminal_events i (snd (createInBandTestRun n env))) = 1"
    by (simp add: start_in_trace in_band_starts in_band_terminal_events)
  have started: "TestFileStart j \<in> set (trace ?r) \<longleftrightarrow>
      j < length (phases ?r) \<and> started (phases ?r ! j)"
    using par_inv_starts [of K m intr ls] by (auto simp: start_in_trace inv_starts_def)
  have count: "length (terminal_events j (trace ?r)) =
      (if j < length (phases ?r) \<and> handled (phases ?r ! j) then 1 else 0)"
    using par_inv_terminals [of K m intr ls] by (simp add: inv_terminals_def)
  have progress: "length (terminal_events j (trace ?r')) = 1"
    if a: "j < length (phases ?r)" "phases ?r ! j = InFlight"
  proof -
    have "j < length (phases ?r') \<and> handled (phases ?r' ! j)"
      using a by (cases x) (simp_all add: run_snoc step_def settle_def handle_def race_fields)
    then show ?thesis
      using par_inv_terminals [of K m intr "ls @ [Settle j x, Handle j]"]
      by (simp add: inv_terminals_def)
  qed
  show ?thesis
    using seq started count progress by (simp split: if_splits)
qed

text \<open>
  C1 at concrete runs: one test, sequential; one test and one worker, parallel, from the
  dispatch to the success event, and up to the failure event; two tests and two workers,
  where the second test settles after \<^verbatim>\<open>exit(1)\<close> was called for the first and the
  process has not ended yet.
\<close>

theorem C1_witness:
  "TestFileStart 0 \<in> set (snd (createInBandTestRun 1 always_passing)) \<and>
   length (terminal_events 0 (snd (createInBandTestRun 1 always_passing))) = 1 \<and>
   phases (createParallelTestRun 1 1 False [Admit, Dispatch 0]) ! 0 = InFlight \<and>
   TestFileStart 0 \<in> set (trace (createParallelTestRun 1 1 False [Admit, Dispatch 0])) \<and>
   length (terminal_events 0
     (trace (createParallelTestRun 1 1 False
               ([Admit, Dispatch 0] @ [Settle 0 (Fulfilled ''ok''), Handle 0])))) = 1 \<and>
   handled (phases (createParallelTestRun 1 1 False
     [Admit, Dispatch 0, Settle 0 (Rejected example_ordinary), Handle 0]) ! 0) \<and>
   length (terminal_events 0
     (trace (createParallelTestRun 1 1 False
               [Admit, Dispatch 0, Settle 0 (Rejected example_ordinary), Handle 0]))) = 1 \<and>
   phases (createParallelTestRun 2 2 False
     [Admit, Admit, Dispatch 0, Dispatch 1, Settle 0 (Rejected example_fatal), Handle 0,
      Resume 0]) ! 1 = InFlight \<and>
   length (terminal_events 1
     (trace (createParallelTestRun 2 2 False
               ([Admit, Admit, Dispatch 0, Dispatch 1, Settle 0 (Rejected example_fatal),
                 Handle 0, Resume 0] @ [Settle 1 (Fulfilled ''ok''), Handle 1])))) = 1"
proof -
  have "TestFileStart 0 \<in> set (snd (createInBandTestRun 1 always_passing))"
    by (simp add: in_band_simps)
  moreover have
    "phases (createParallelTestRun 1 1 False [Admit, Dispatch 0]) = [InFlight]"
    "phases (createParallelTestRun 1 1 False
       [Admit, Dispatch 0, Settle 0 (Rejected example_ordinary), Handle 0]) =
     [Awaiting True example_ordinary]"
    "phases (createParallelTestRun 2 2 False
       [Admit, Admit, Dispatch 0, Dispatch 1, Settle 0 (Rejected example_fatal), Handle 0,
        Resume 0]) = [Returning True, InFlight]"
    by (simp_all add: run_simps)
  ultimately show ?thesis
    using
      C1_one_terminal_event
        [where i = 0 and n = 1 and env = always_passing and j = 0 and K = 1 and m = 1
           and intr = False and ls = "[Admit, Dispatch 0]" and x = "Fulfilled ''ok''"]
      C1_one_terminal_event
        [where i = 0 and n = 1 and env = always_passing and j = 0 and K = 1 and m = 1
           and intr = False
           and ls = "[Admit, Dispatch 0, Settle 0 (Rejected example_ordinary), Handle 0]"]
      C1_one_terminal_event
        [where i = 0 and n = 1 and env = always_passing and j = 1 and K = 2 and m = 2
           and intr = False and x = "Fulfilled ''ok''"
           and ls = "[Admit, Admit, Dispatch 0, Dispatch 1, Settle 0 (Rejected example_fatal),
                      Handle 0, Resume 0]"]
    by simp
qed




text \<open>
  C3, as stated: for every parallel run the teardown of the worker pool is invoked exactly
  once, on every exit path (Completed, Cancelled, fatal fault), and on the fatal path the
  teardown happens before the host process exits.

  This fails on the fatal path: \<^verbatim>\<open>onError\<close> calls \<^verbatim>\<open>exit(1)\<close> itself, while \<^verbatim>\<open>cleanup\<close>
  only runs once the race of \<^verbatim>\<open>runAllTests\<close> and \<^verbatim>\<open>onInterrupt\<close> is decided. One test,
  one worker, a terminated worker process: when \<^verbatim>\<open>exit(1)\<close> is called the trace holds no
  \<^verbatim>\<open>worker.end()\<close>.
\<close>

theorem C3_counterexample:
  "trace
     (createParallelTestRun 1 1 False
        [Admit, Dispatch 0, Settle 0 (Rejected example_fatal), Handle 0, Resume 0]) =
     [NewWorker 1, WatcherOnChange, TestFileStart 0, WorkerCall 0,
      TestFileFailure 0 example_fatal, ConsoleError fatal_message, Exit 1] \<and>
   exit_code
     (createParallelTestRun 1 1 False
        [Admit, Dispatch 0, Settle 0 (Rejected example_fatal), Handle 0, Resume 0]) = Some 1 \<and>
   teardowns (trace
     (createParallelTestRun 1 1 False
        [Admit, Dispatch 0, Settle 0 (Rejected example_fatal), Handle 0, Resume 0])) = 0"
  by (simp add: run_simps teardowns_def)

text \<open>
  C3, as the code has it. In every parallel run the teardown is invoked at most once, and
  exactly once from the moment the promise returned to the caller is settled: once the
  chains of all tests are fulfilled (Completed) the promise is settled, and an
  interruption settles it (Cancelled). On the fatal path the handler calls the diagnostic
  and \<^verbatim>\<open>exit(1)\<close> and no teardown: when \<^verbatim>\<open>exit(1)\<close> is called, the teardown has been
  invoked only if the promise returned to the caller was settled before.
\<close>

theorem C3_teardown_with_the_settlement:
  "teardowns (trace (createParallelTestRun K n intr ls)) =
     (if returned (createParallelTestRun K n intr ls) = None then 0 else 1) \<and>
   (length (phases (createParallelTestRun K n intr ls)) = n \<and>
    list_all is_fulfilled (phases (createParallelTestRun K n intr ls)) \<longrightarrow>
      returned (createParallelTestRun K n intr ls) = Some (Fulfilled ())) \<and>
   returned (createParallelTestRun K n intr (ls @ [Interrupt])) = Some (Fulfilled ()) \<and>
   (j < length (phases (createParallelTestRun K n intr ls)) \<and>
    phases (createParallelTestRun K n intr ls) ! j = Awaiting st e \<and> is_fatal e \<longrightarrow>
      trace (createParallelTestRun K n intr (ls @ [Resume j])) =
        trace (createParallelTestRun K n intr ls) @ [ConsoleError fatal_message, Exit 1] \<and>
      teardowns (trace (createParallelTestRun K n intr (ls @ [Resume j]))) =
        (if returned (createParallelTestRun K n intr ls) = None then 0 else 1))"
proof -
  let ?r = "createParallelTestRun K n intr ls"
  have race: "inv_race ?r" by (rule par_inv_race)
  have one: "teardowns (trace ?r) = (if returned ?r = None then 0 else 1)"
    using race by (simp add: inv_race_def)
  have completed: "length (phases ?r) = n \<and> list_all is_fulfilled (phases ?r) \<longrightarrow>
      returned ?r = Some (Fulfilled ())"
    using race par_inv_done [of n K intr ls] by (auto simp: inv_race_def inv_done_def)
  have cancelled:
    "returned (createParallelTestRun K n intr (ls @ [Interrupt])) = Some (Fulfilled ())"
    using race by (simp add: run_snoc step_def interrupt_def race_fields inv_race_def)
  have fatal: "j < length (phases ?r) \<and> phases ?r ! j = Awaiting st e \<and> is_fatal e \<longrightarrow>
      trace (createParallelTestRun K n intr (ls @ [Resume j])) =
        trace ?r @ [ConsoleError fatal_message, Exit 1] \<and>
      teardowns (trace (createParallelTestRun K n intr (ls @ [Resume j]))) =
        (if returned ?r = None then 0 else 1)"
  proof (intro impI, elim conjE)
    assume a: "j < length (phases ?r)" "phases ?r ! j = Awaiting st e" "is_fatal e"
    have "trace (createParallelTestRun K n intr (ls @ [Resume j])) =
        trace ?r @ [ConsoleError fatal_message, Exit 1]"
      using a by (cases e) (simp_all add: run_snoc step_def resume_def is_fatal_def)
    then show "trace (createParallelTestRun K n intr (ls @ [Resume j])) =
        trace ?r @ [ConsoleError fatal_message, Exit 1] \<and>
      teardowns (trace (createParallelTestRun K n intr (ls @ [Resume j]))) =
        (if returned ?r = None then 0 else 1)"
      using one by (simp add: teardowns_def)
  qed
  show ?thesis
    using one completed cancelled fatal by blast
qed

text \<open>
  C3 at concrete runs over one test: completed, cancelled, reaching the exit, and
  completed after a call of \<^verbatim>\<open>exit(1)\<close> that returned.
\<close>

theorem C3_witness:
  "list_all is_fulfilled
     (phases (createParallelTestRun 1 1 False
        [Admit, Dispatch 0, Settle 0 (Fulfilled ''ok''), Handle 0, Resume 0])) \<and>
   returned (createParallelTestRun 1 1 False
     [Admit, Dispatch 0, Settle 0 (Fulfilled ''ok''), Handle 0, Resume 0]) =
     Some (Fulfilled ()) \<and>
   teardowns (trace (createParallelTestRun 1 1 False
     [Admit, Dispatch 0, Settle 0 (Fulfilled ''ok''), Handle 0, Resume 0])) = 1 \<and>
   returned (createParallelTestRun 1 1 False ([Admit] @ [Interrupt])) = Some (Fulfilled ()) \<and>
   phases (createParallelTestRun 1 1 False
     [Admit, Dispatch 0, Settle 0 (Rejected example_fatal), Handle 0]) ! 0 =
     Awaiting True example_fatal \<and>
   is_fatal example_fatal \<and>
   trace (createParallelTestRun 1 1 False
     ([Admit, Dispatch 0, Settle 0 (Rejected example_fatal), Handle 0] @ [Resume 0])) =
     [NewWorker 1, WatcherOnChange, TestFileStart 0, WorkerCall 0,
      TestFileFailure 0 example_fatal, ConsoleError fatal_message, Exit 1] \<and>
   teardowns (trace (createParallelTestRun 1 1 False
     ([Admit, Dispatch 0, Settle 0 (Rejected example_fatal), Handle 0] @ [Resume 0]))) = 0 \<and>
   list_all is_fulfilled
     (phases (createParallelTestRun 1 1 False
        [Admit, Dispatch 0, Settle 0 (Rejected example_fatal), Handle 0, Resume 0, Resume 0])) \<and>
   returned (createParallelTestRun 1 1 False
     [Admit, Dispatch 0, Settle 0 (Rejected example_fatal), Handle 0, Resume 0, Resume 0]) =
     Some (Fulfilled ()) \<and>
   teardowns (trace (createParallelTestRun 1 1 False
     [Admit, Dispatch 0, Settle 0 (Rejected example_fatal), Handle 0, Resume 0, Resume 0])) = 1"
proof -
  have a:
    "phases (createParallelTestRun 1 1 False
       [Admit, Dispatch 0, Settle 0 (Fulfilled ''ok''), Handle 0, Resume 0]) =
     [Finished True (Fulfilled ())]"
    "phases (createParallelTestRun 1 1 False
       [Admit, Dispatch 0, Settle 0 (Rejected example_fatal), Handle 0]) =
     [Awaiting True example_fatal]"
    "trace (createParallelTestRun 1 1 False
       [Admit, Dispatch 0, Settle 0 (Rejected example_fatal), Handle 0]) =
     [NewWorker 1, WatcherOnChange, TestFileStart 0, WorkerCall 0,
      TestFileFailure 0 example_fatal]"
    "returned (createParallelTestRun 1 1 False
       [Admit, Dispatch 0, Settle 0 (Rejected example_fatal), Handle 0]) = None"
    "is_fatal example_fatal"
    "phases (createParallelTestRun 1 1 False
       [Admit, Dispatch 0, Settle 0 (Rejected example_fatal), Handle 0, Resume 0, Resume 0]) =
     [Finished True (Fulfilled ())]"
    by (simp_all add: run_simps)
  show ?thesis
    using a
      C3_teardown_with_the_settlement
        [where K = 1 and n = 1 and intr = False
           and ls = "[Admit, Dispatch 0, Settle 0 (Rejected example_fatal), Handle 0, Resume 0,
                      Resume 0]"]
      C3_teardown_with_the_settlement
        [where K = 1 and n = 1 and intr = False
           and ls = "[Admit, Dispatch 0, Settle 0 (Fulfilled ''ok''), Handle 0, Resume 0]"]
      C3_teardown_with_the_settlement
        [where K = 1 and n = 1 and intr = False and ls = "[Admit]"]
      C3_teardown_with_the_settlement
        [where K = 1 and n = 1 and intr = False
           and ls = "[Admit, Dispatch 0, Settle 0 (Rejected example_fatal), Handle 0]"
           and j = 0 and st = True and e = example_fatal]
    by (simp add: teardowns_def)
qed

text \<open>
  C4, as stated: in the parallel strategy, whenever the error of a dispatched test is
  classified as a fatal fault of the pool (by the tag \<^verbatim>\<open>type\<close> of the error, not by its
  message), the scheduler first emits the failure event of that test, then logs a
  diagnostic and ends the host process with a non-zero status, and no tests after it are
  dispatched.

  The last part fails. The slot of the gate is freed by the settlement of the worker
  call, not by the handler, and nothing stops the gate before \<^verbatim>\<open>exit(1)\<close> is called at
  the end of \<^verbatim>\<open>onError\<close>. With one worker and two tests: the first test fails with a
  terminated worker process; the second, which waited at the gate, is admitted, started
  and dispatched; only then does \<^verbatim>\<open>onError\<close> of the first test reach the exit.
\<close>

theorem C4_counterexample:
  "phases (createParallelTestRun 1 2 False
     [Admit, Dispatch 0, Settle 0 (Rejected example_fatal)]) =
     [Settled (Rejected example_fatal)] \<and>
   is_fatal example_fatal \<and>
   dispatches (trace (createParallelTestRun 1 2 False
     [Admit, Dispatch 0, Settle 0 (Rejected example_fatal)])) = [0] \<and>
   trace (createParallelTestRun 1 2 False
     [Admit, Dispatch 0, Settle 0 (Rejected example_fatal), Admit, Handle 0, Dispatch 1,
      Resume 0]) =
     [NewWorker 1, WatcherOnChange, TestFileStart 0, WorkerCall 0, TestFileStart 1,
      TestFileFailure 0 example_fatal, WorkerCall 1, ConsoleError fatal_message, Exit 1] \<and>
   dispatches (trace (createParallelTestRun 1 2 False
     [Admit, Dispatch 0, Settle 0 (Rejected example_fatal), Admit, Handle 0, Dispatch 1,
      Resume 0])) = [0, 1]"
  by (simp add: run_simps)

text \<open>
  C4, as the code has it. The classification reads the tag \<^verbatim>\<open>type\<close> only. The handler
  of a test whose worker call rejected with a fatal error appends the failure event of
  the test, the diagnostic and \<^verbatim>\<open>exit(1)\<close>, in this order, and \<^verbatim>\<open>exit\<close> has then been
  called with status 1. In every run, whatever the schedule, every call of \<^verbatim>\<open>exit\<close> in
  the trace has status 1, follows the diagnostic at once and comes after the failure
  event of a fatal error; and \<^verbatim>\<open>exit\<close> has been called exactly when the trace holds
  the call. (Before the call a test that waited at the gate can still be dispatched, as
  the run above shows.)
\<close>

theorem C4_fatal_fault_exits:
  "is_fatal (ErrorObject nm ty msg) = (ty = Some ''ProcessTerminatedError'') \<and>
   (i < length (phases s) \<and> phases s ! i = Settled (Rejected e) \<and> is_fatal e \<longrightarrow>
      trace (foldl (step K n) s [Handle i, Resume i]) =
        trace s @ [TestFileFailure i e, ConsoleError fatal_message, Exit 1] \<and>
      exit_code (foldl (step K n) s [Handle i, Resume i]) = Some 1) \<and>
   (trace (createParallelTestRun K n intr ls) = pre @ Exit c # post \<longrightarrow>
      c = 1 \<and> (\<exists>p. pre = p @ [ConsoleError fatal_message]) \<and>
      (\<exists>j err. is_fatal err \<and> TestFileFailure j err \<in> set pre)) \<and>
   (exit_code (createParallelTestRun K n intr ls) = None \<longrightarrow>
      Exit c \<notin> set (trace (createParallelTestRun K n intr ls))) \<and>
   (exit_code (createParallelTestRun K n intr ls) \<noteq> None \<longrightarrow>
      exit_code (createParallelTestRun K n intr ls) = Some 1 \<and>
      Exit 1 \<in> set (trace (createParallelTestRun K n intr ls)))"
proof -
  have tag: "is_fatal (ErrorObject nm ty msg) = (ty = Some ''ProcessTerminatedError'')"
    by (simp add: is_fatal_def)
  have local: "i < length (phases s) \<and> phases s ! i = Settled (Rejected e) \<and> is_fatal e \<longrightarrow>
      trace (foldl (step K n) s [Handle i, Resume i]) =
        trace s @ [TestFileFailure i e, ConsoleError fatal_message, Exit 1] \<and>
      exit_code (foldl (step K n) s [Handle i, Resume i]) = Some 1"
    by (cases e) (simp_all add: step_def handle_def resume_def is_fatal_def)
  have global: "trace (createParallelTestRun K n intr ls) = pre @ Exit c # post \<longrightarrow>
      c = 1 \<and> (\<exists>p. pre = p @ [ConsoleError fatal_message]) \<and>
      (\<exists>j err. is_fatal err \<and> TestFileFailure j err \<in> set pre)"
    using exit_in_trace [of K n intr ls pre c post] by blast
  have called:
    "(exit_code (createParallelTestRun K n intr ls) = None \<longrightarrow>
        Exit c \<notin> set (trace (createParallelTestRun K n intr ls))) \<and>
     (exit_code (createParallelTestRun K n intr ls) \<noteq> None \<longrightarrow>
        exit_code (createParallelTestRun K n intr ls) = Some 1 \<and>
        Exit 1 \<in> set (trace (createParallelTestRun K n intr ls)))"
    using par_inv_exit [of K n intr ls] by (auto simp: inv_exit_def)
  show ?thesis
    using tag local global called by blast
qed

text \<open>C4 at a concrete run: two tests, one worker, the handler of the first test exits.\<close>

theorem C4_witness:
  "is_fatal example_fatal \<and>
   phases (createParallelTestRun 1 2 False
     [Admit, Dispatch 0, Settle 0 (Rejected example_fatal)]) ! 0 =
     Settled (Rejected example_fatal) \<and>
   trace (foldl (step 1 2)
     (createParallelTestRun 1 2 False [Admit, Dispatch 0, Settle 0 (Rejected example_fatal)])
     [Handle 0, Resume 0]) =
     [NewWorker 1, WatcherOnChange, TestFileStart 0, WorkerCall 0,
      TestFileFailure 0 example_fatal, ConsoleError fatal_message, Exit 1] \<and>
   trace (createParallelTestRun 1 2 False
     [Admit, Dispatch 0, Settle 0 (Rejected example_fatal), Handle 0, Resume 0]) =
     [NewWorker 1, WatcherOnChange, TestFileStart 0, WorkerCall 0,
      TestFileFailure 0 example_fatal, ConsoleError fatal_message] @ Exit 1 # [] \<and>
   TestFileFailure 0 example_fatal \<in>
     set [NewWorker 1, WatcherOnChange, TestFileStart 0, WorkerCall 0,
          TestFileFailure 0 example_fatal, ConsoleError fatal_message] \<and>
   exit_code (createParallelTestRun 1 2 False
     [Admit, Dispatch 0, Settle 0 (Rejected example_fatal), Handle 0, Resume 0]) = Some 1 \<and>
   exit_code (createParallelTestRun 1 2 False [Admit, Dispatch 0]) = None \<and>
   Exit 1 \<notin> set (trace (createParallelTestRun 1 2 False [Admit, Dispatch 0]))"
proof -
  have a:
    "is_fatal example_fatal"
    "phases (createParallelTestRun 1 2 False
       [Admit, Dispatch 0, Settle 0 (Rejected example_fatal)]) =
     [Settled (Rejected example_fatal)]"
    "trace (createParallelTestRun 1 2 False
       [Admit, Dispatch 0, Settle 0 (Rejected example_fatal)]) =
     [NewWorker 1, WatcherOnChange, TestFileStart 0, WorkerCall 0]"
    "trace (createParallelTestRun 1 2 False
       [Admit, Dispatch 0, Settle 0 (Rejected example_fatal), Handle 0, Resume 0]) =
     [NewWorker 1, WatcherOnChange, TestFileStart 0, WorkerCall 0,
      TestFileFailure 0 example_fatal, ConsoleError fatal_message] @ Exit 1 # []"
    "exit_code (createParallelTestRun 1 2 False
       [Admit, Dispatch 0, Settle 0 (Rejected example_fatal), Handle 0, Resume 0]) = Some 1"
    "exit_code (createParallelTestRun 1 2 False [Admit, Dispatch 0]) = None"
    by (simp_all add: run_simps)
  show ?thesis
    using a
      C4_fatal_fault_exits
        [where s = "createParallelTestRun 1 2 False
                      [Admit, Dispatch 0, Settle 0 (Rejected example_fatal)]"
           and i = 0 and e = example_fatal and K = 1 and n = 2 and intr = False
           and ls = "[Admit, Dispatch 0, Settle 0 (Rejected example_fatal), Handle 0, Resume 0]"
           and c = 1 and post = "[]"
           and pre = "[NewWorker 1, WatcherOnChange, TestFileStart 0, WorkerCall 0,
                       TestFileFailure 0 example_fatal, ConsoleError fatal_message]"]
      C4_fatal_fault_exits
        [where s = "createParallelTestRun 1 2 False
                      [Admit, Dispatch 0, Settle 0 (Rejected example_fatal)]"
           and i = 0 and e = example_fatal and K = 1 and n = 2 and intr = False
           and ls = "[Admit, Dispatch 0]" and c = 1]
    by simp
qed

text \<open>
  C5, as stated: for every run that does not hit a fatal fault, \<^verbatim>\<open>runTests\<close> resolves
  normally (never rejects) with an outcome value that is either Completed or Cancelled;
  cancellation is never surfaced to the caller as a failure or rejection.

  The promise of \<^verbatim>\<open>runTests\<close> is a \<^verbatim>\<open>Promise<void>\<close>: it carries no outcome value. A
  cancelled run and a completed run are fulfilled with the same (absent) value, in the
  sequential strategy (first two runs) and in the parallel one (last two runs), so the
  caller cannot tell Completed from Cancelled.
\<close>

theorem C5_counterexample:
  "settled_as (runTests True 1 1 always_interrupted True []) = Some (Fulfilled ()) \<and>
   settled_as (runTests True 1 1 always_passing False []) = Some (Fulfilled ()) \<and>
   settled_as (runTests False 1 1 always_passing False [Admit, Dispatch 0, Interrupt]) =
     Some (Fulfilled ()) \<and>
   settled_as (runTests False 1 1 always_passing False
                 [Admit, Dispatch 0, Settle 0 (Fulfilled ''ok''), Handle 0, Resume 0]) =
     Some (Fulfilled ())"
  by (simp add: runTests_def in_band_simps run_simps)

text \<open>
  C5, as the code has it. The promise of a sequential run is fulfilled, with no value,
  and the process does not exit. The promise of a parallel run is never rejected,
  whatever the schedule; it is fulfilled, with no value, once the chains of all the tests
  have settled, and an interruption fulfils it: cancellation is not surfaced to the
  caller as a rejection.
\<close>

theorem C5_resolves_without_rejecting:
  "settled_as (runTests True K n env intr ls) = Some (Fulfilled ()) \<and>
   exited_with (runTests True K n env intr ls) = None \<and>
   settled_as (runTests False K n env intr ls) \<noteq> Some (Rejected e) \<and>
   (length (phases (createParallelTestRun K n intr ls)) = n \<and>
    list_all is_finished (phases (createParallelTestRun K n intr ls)) \<longrightarrow>
      settled_as (runTests False K n env intr ls) = Some (Fulfilled ())) \<and>
   settled_as (runTests False K n env intr (ls @ [Interrupt])) = Some (Fulfilled ())"
proof -
  have race: "inv_race (createParallelTestRun K n intr ls)" by (rule par_inv_race)
  have "fst (createInBandTestRun n env) = Fulfilled ()" by (rule in_band_fulfilled)
  then have seq: "settled_as (runTests True K n env intr ls) = Some (Fulfilled ()) \<and>
      exited_with (runTests True K n env intr ls) = None"
    by (simp add: runTests_def split_beta)
  have never: "settled_as (runTests False K n env intr ls) \<noteq> Some (Rejected e)"
    using race by (simp add: runTests_def Let_def inv_race_def split: if_splits)
  have completed: "length (phases (createParallelTestRun K n intr ls)) = n \<and>
    list_all is_finished (phases (createParallelTestRun K n intr ls)) \<longrightarrow>
      settled_as (runTests False K n env intr ls) = Some (Fulfilled ())"
    using all_finished_settled [of K n intr ls] by (simp add: runTests_def Let_def)
  have cancelled:
    "settled_as (runTests False K n env intr (ls @ [Interrupt])) = Some (Fulfilled ())"
    using race
    by (simp add: runTests_def Let_def run_snoc step_def interrupt_def race_fields inv_race_def)
  show ?thesis
    using seq never completed cancelled by blast
qed

text \<open>
  C5 at concrete parallel runs: one test that runs to its end; one test in flight, then
  the interruption.
\<close>

theorem C5_witness:
  "list_all is_finished
     (phases (createParallelTestRun 1 1 False
        [Admit, Dispatch 0, Settle 0 (Fulfilled ''ok''), Handle 0, Resume 0])) \<and>
   settled_as (runTests False 1 1 always_passing False
     [Admit, Dispatch 0, Settle 0 (Fulfilled ''ok''), Handle 0, Resume 0]) =
     Some (Fulfilled ()) \<and>
   settled_as (runTests False 1 1 always_passing False [Admit, Dispatch 0]) = None \<and>
   settled_as (runTests False 1 1 always_passing False ([Admit, Dispatch 0] @ [Interrupt])) =
     Some (Fulfilled ())"
proof -
  have a:
    "phases (createParallelTestRun 1 1 False
       [Admit, Dispatch 0, Settle 0 (Fulfilled ''ok''), Handle 0, Resume 0]) =
     [Finished True (Fulfilled ())]"
    "settled_as (runTests False 1 1 always_passing False [Admit, Dispatch 0]) = None"
    by (simp_all add: runTests_def run_simps)
  show ?thesis
    using a
      C5_resolves_without_rejecting
        [where K = 1 and n = 1 and env = always_passing and intr = False
           and ls = "[Admit, Dispatch 0, Settle 0 (Fulfilled ''ok''), Handle 0, Resume 0]"]
      C5_resolves_without_rejecting
        [where K = 1 and n = 1 and env = always_passing and intr = False
           and ls = "[Admit, Dispatch 0]"]
    by simp
qed

text \<open>
  C6. In the parallel strategy, at no point are more than \<open>K\<close> tests in flight, where
  \<open>K\<close> is the concurrency of the run: the width of the gate is \<^verbatim>\<open>maxWorkers\<close>. Whatever
  the pool and the watcher do and however the event loop schedules the continuations
  (the list \<open>ls\<close>), the tests that hold a slot of the gate, started or dispatched and
  not yet settled, are at most \<open>K\<close>.
\<close>

theorem C6_in_flight_at_most_K:
  "in_flight (createParallelTestRun K n intr ls) \<le> K"
  using par_inv_gate [of K n intr ls] by (simp add: inv_gate_def)

text \<open>
  C7, as stated: tests are admitted and dispatched in the order of the input list in both
  strategies; in the sequential strategy, moreover, only one test executes at a time,
  under a concurrency gate of width 1.

  The order of the dispatches fails in the parallel strategy. The closure of a test calls
  \<^verbatim>\<open>worker.worker\<close> when the emission of its own start event has resolved, and nothing
  orders the closures of different tests. With two workers and two tests both tests are
  started, in input order; the closure of the second test resumes first, and the second
  test is handed to the pool before the first.
\<close>

theorem C7_counterexample:
  "trace (createParallelTestRun 2 2 False [Admit, Admit, Dispatch 1, Dispatch 0]) =
     [NewWorker 2, WatcherOnChange, TestFileStart 0, TestFileStart 1, WorkerCall 1,
      WorkerCall 0] \<and>
   starts (trace (createParallelTestRun 2 2 False [Admit, Admit, Dispatch 1, Dispatch 0])) =
     [0, 1] \<and>
   dispatches (trace (createParallelTestRun 2 2 False [Admit, Admit, Dispatch 1, Dispatch 0])) =
     [1, 0]"
  by (simp add: run_simps)

text \<open>
  C7, as the code has it. Tests are admitted (started) in the order of the input list in
  both strategies; in the sequential strategy they are executed in that order, one at a
  time, under a gate of width 1; in the parallel strategy every started test is
  dispatched at most once, after its own start event.

  Sequential: the started tests are the tests whose check did not see an interruption, in
  input order; the executed tests are the started ones, in the same order; and at every
  point of the run (every prefix of the trace) at most one execution is under way, the
  width of the gate. Parallel, in every state of every run: the started tests are, in
  input order, the tests that left the gate as started; the start event and the dispatch
  of a test occur in the trace as the start alone while its closure waits, and as the
  start followed by the dispatch afterwards; when a slot is free, a test is queued and
  the watcher is not interrupted, the gate admits the first queued test and its start
  event is emitted; and the closure of a started test that resumes dispatches that test.
\<close>

theorem C7_admission_in_input_order:
  "starts (snd (createInBandTestRun n env)) = filter (\<lambda>i. \<not> is_interrupted (env i)) [0..<n] \<and>
   executions (snd (createInBandTestRun n env)) = starts (snd (createInBandTestRun n env)) \<and>
   sorted_wrt (<) (starts (snd (createInBandTestRun n env))) \<and>
   (prefix p (snd (createInBandTestRun n env)) \<longrightarrow> executing p \<le> in_band_gate_width) \<and>
   starts (trace (createParallelTestRun K m intr ls)) =
     filter (\<lambda>i. started (phases (createParallelTestRun K m intr ls) ! i))
       [0..<length (phases (createParallelTestRun K m intr ls))] \<and>
   sorted_wrt (<) (starts (trace (createParallelTestRun K m intr ls))) \<and>
   start_and_dispatch j (trace (createParallelTestRun K m intr ls)) =
     (if j < length (phases (createParallelTestRun K m intr ls)) \<and>
         started (phases (createParallelTestRun K m intr ls) ! j)
      then TestFileStart j #
           (if dispatched (phases (createParallelTestRun K m intr ls) ! j)
            then [WorkerCall j] else [])
      else []) \<and>
   (length (phases (createParallelTestRun K m intr ls)) < m \<and>
    in_flight (createParallelTestRun K m intr ls) < K \<and>
    \<not> interrupted (createParallelTestRun K m intr ls) \<longrightarrow>
      trace (createParallelTestRun K m intr (ls @ [Admit])) =
        trace (createParallelTestRun K m intr ls) @
        [TestFileStart (length (phases (createParallelTestRun K m intr ls)))] \<and>
      phases (createParallelTestRun K m intr (ls @ [Admit])) =
        phases (createParallelTestRun K m intr ls) @ [Starting]) \<and>
   (j < length (phases (createParallelTestRun K m intr ls)) \<and>
    phases (createParallelTestRun K m intr ls) ! j = Starting \<longrightarrow>
      trace (createParallelTestRun K m intr (ls @ [Dispatch j])) =
        trace (createParallelTestRun K m intr ls) @ [WorkerCall j] \<and>
      phases (createParallelTestRun K m intr (ls @ [Dispatch j])) =
        (phases (createParallelTestRun K m intr ls))[j := InFlight])"
proof -
  let ?r = "createParallelTestRun K m intr ls"
  have par: "inv_starts ?r"
    by (rule par_inv_starts)
  have order: "starts (trace ?r) = filter (\<lambda>i. started (phases ?r ! i)) [0..<length (phases ?r)]"
    using par by (simp add: inv_starts_def)
  have sorted_par: "sorted_wrt (<) (starts (trace ?r))"
    using par by (simp add: inv_starts_def sorted_wrt_filter)
  have sorted_seq: "sorted_wrt (<) (starts (snd (createInBandTestRun n env)))"
    by (simp add: in_band_starts sorted_wrt_filter)
  have gate: "prefix p (snd (createInBandTestRun n env)) \<longrightarrow>
      executing p \<le> in_band_gate_width"
    using in_band_executing [of p n env] by (simp add: in_band_gate_width_def)
  have life: "start_and_dispatch j (trace ?r) =
     (if j < length (phases ?r) \<and> started (phases ?r ! j)
      then TestFileStart j # (if dispatched (phases ?r ! j) then [WorkerCall j] else [])
      else [])"
    using par_inv_dispatch [of K m intr ls] unfolding inv_dispatch_def by blast
  have admitted: "length (phases ?r) < m \<and> in_flight ?r < K \<and> \<not> interrupted ?r \<longrightarrow>
      trace (createParallelTestRun K m intr (ls @ [Admit])) =
        trace ?r @ [TestFileStart (length (phases ?r))] \<and>
      phases (createParallelTestRun K m intr (ls @ [Admit])) = phases ?r @ [Starting]"
    by (simp add: run_snoc step_def admit_def Let_def)
  have handed: "j < length (phases ?r) \<and> phases ?r ! j = Starting \<longrightarrow>
      trace (createParallelTestRun K m intr (ls @ [Dispatch j])) = trace ?r @ [WorkerCall j] \<and>
      phases (createParallelTestRun K m intr (ls @ [Dispatch j])) = (phases ?r)[j := InFlight]"
    by (simp add: run_snoc step_def dispatch_def)
  show ?thesis
    using order sorted_par sorted_seq gate life admitted handed
    by (simp only: in_band_starts in_band_executions simp_thms)
qed

text \<open>
  C7 at concrete runs of two tests: a sequential run stopped while the first test
  executes; a parallel run with two workers in which the first test is started, then the
  second is admitted, or the first is dispatched.
\<close>

theorem C7_witness:
  "prefix [SetWorkerId, TestFileStart 0, RunTest 0] (snd (createInBandTestRun 2 always_passing)) \<and>
   executing [SetWorkerId, TestFileStart 0, RunTest 0] \<le> in_band_gate_width \<and>
   starts (snd (createInBandTestRun 2 always_passing)) = [0, 1] \<and>
   phases (createParallelTestRun 2 2 False [Admit]) = [Starting] \<and>
   in_flight (createParallelTestRun 2 2 False [Admit]) = 1 \<and>
   \<not> interrupted (createParallelTestRun 2 2 False [Admit]) \<and>
   start_and_dispatch 0 (trace (createParallelTestRun 2 2 False [Admit])) = [TestFileStart 0] \<and>
   trace (createParallelTestRun 2 2 False ([Admit] @ [Admit])) =
     [NewWorker 2, WatcherOnChange, TestFileStart 0, TestFileStart 1] \<and>
   trace (createParallelTestRun 2 2 False ([Admit] @ [Dispatch 0])) =
     [NewWorker 2, WatcherOnChange, TestFileStart 0, WorkerCall 0]"
proof -
  have h: "prefix [SetWorkerId, TestFileStart 0, RunTest 0]
     (snd (createInBandTestRun 2 always_passing))"
    by (simp add: in_band_simps numeral_2_eq_2)
  have "[0..<2] = [0, Suc 0]"
    by (simp add: numeral_2_eq_2)
  moreover have
    "phases (createParallelTestRun 2 2 False [Admit]) = [Starting]"
    "in_flight (createParallelTestRun 2 2 False [Admit]) = 1"
    "\<not> interrupted (createParallelTestRun 2 2 False [Admit])"
    "trace (createParallelTestRun 2 2 False [Admit]) =
       [NewWorker 2, WatcherOnChange, TestFileStart 0]"
    by (simp_all add: run_simps)
  ultimately show ?thesis
    using h C7_admission_in_input_order
      [where n = 2 and env = always_passing and p = "[SetWorkerId, TestFileStart 0, RunTest 0]"
         and K = 2 and m = 2 and intr = False and ls = "[Admit]" and j = 0]
    by (simp add: always_passing_def)
qed




text \<open>
  C9. In the parallel strategy there is a run in which the watcher becomes interrupted
  while a test is waiting at the gate; the check after acquiring the gate then rejects
  with no reason (\<^verbatim>\<open>undefined\<close>), and the shared error handler emits a failure event
  carrying \<^verbatim>\<open>undefined\<close> and reads the field \<^verbatim>\<open>type\<close> of \<^verbatim>\<open>undefined\<close>.

  The run: one worker, two tests. The first test is in flight and the second waits when
  the watcher is interrupted; the first test then succeeds, which frees the slot; the
  second is admitted and rejected at the gate; its handler emits the failure event with
  \<^verbatim>\<open>undefined\<close>, and the read of \<^verbatim>\<open>err.type\<close> throws, which rejects the chain of the
  test.
\<close>

theorem C9_gate_rejection_reaches_onError:
  "phases (createParallelTestRun 1 2 False [Admit, Dispatch 0]) = [InFlight] \<and>
   interrupted (createParallelTestRun 1 2 False [Admit, Dispatch 0, Interrupt]) \<and>
   phases (createParallelTestRun 1 2 False
     [Admit, Dispatch 0, Interrupt, Settle 0 (Fulfilled ''ok''), Admit]) =
     [Settled (Fulfilled ''ok''), GateRejected] \<and>
   trace (createParallelTestRun 1 2 False
     [Admit, Dispatch 0, Interrupt, Settle 0 (Fulfilled ''ok''), Admit, Handle 0, Handle 1]) =
     [NewWorker 1, WatcherOnChange, TestFileStart 0, WorkerCall 0, WorkerEnd,
      TestFileSuccess 0 ''ok'', TestFileFailure 1 Undefined] \<and>
   get_type Undefined = Inl TypeError \<and>
   phases (createParallelTestRun 1 2 False
     [Admit, Dispatch 0, Interrupt, Settle 0 (Fulfilled ''ok''), Admit, Handle 0, Handle 1,
      Resume 0, Resume 1]) =
     [Finished True (Fulfilled ()), Finished False (Rejected TypeError)]"
  by (simp add: run_simps)

text \<open>
  C10. A sequential run (\<^verbatim>\<open>options.serial\<close> true) never constructs the worker pool:
  every test is executed in-process by \<^verbatim>\<open>runTest\<close>, and no teardown of a pool occurs.
  The trace of a serial run holds no call on the pool (construction, dispatch, teardown),
  and the executed tests are the started tests.
\<close>

theorem C10_serial_run_has_no_pool:
  "\<not> list_ex pool_action (actions (runTests True K n env intr ls)) \<and>
   executions (actions (runTests True K n env intr ls)) =
     starts (actions (runTests True K n env intr ls))"
  using in_band_no_pool [of n env]
  by (simp add: runTests_def split_beta in_band_starts in_band_executions)

end
